theory Spec2Isabelle
  imports Complex_Main
begin

section \<open>Python values and errors\<close>

text \<open>
  The notebooks are Python. A raised exception is a value of type \<open>error\<close>, and a call
  that may raise returns \<open>error + 'a\<close> with \<open>Inl\<close> for the exception. Numeric code on
  floats is read over exact real arithmetic.
\<close>

datatype error = TypeError | IndexError | ZeroDivisionError

datatype pyval = PInt int | PStr string | PNone

text \<open>
  Python's binary \<open>*\<close> on the values above: the product of two ints, the repetition of a
  string by an int (in either order; a count below one gives the empty string), and
  \<open>TypeError\<close> for every other pair.
\<close>

fun py_mul :: "pyval \<Rightarrow> pyval \<Rightarrow> error + pyval" where
  "py_mul (PInt a) (PInt b) = Inr (PInt (a * b))"
| "py_mul (PStr s) (PInt n) = Inr (PStr (concat (replicate (nat n) s)))"
| "py_mul (PInt n) (PStr s) = Inr (PStr (concat (replicate (nat n) s)))"
| "py_mul _ _ = Inl TypeError"

section \<open>Functional-programming notebook\<close>

subsection \<open>\<open>foo\<close>: an annotated function\<close>

text \<open>
  \<^verbatim>\<open>
  def foo(a: int) -> int:
      return a * 3
  \<close>
  The annotations are not checked when the function is called, so the model takes any value.
\<close>

definition foo :: "pyval \<Rightarrow> error + pyval" where
  "foo a = py_mul a (PInt 3)"

subsection \<open>\<open>f\<close>: replace the first element in a copy\<close>

text \<open>
  Lists are mutable objects, so they live in a store: \<open>cells\<close> maps an address to the
  elements of the list object there, and \<open>fresh\<close> is the next unused address. A variable
  holding a list holds its address.
\<close>

record heap =
  cells :: "nat \<Rightarrow> pyval list option"
  fresh :: nat

definition wf_heap :: "heap \<Rightarrow> bool" where
  "wf_heap h = (dom (cells h) \<subseteq> {..< fresh h})"

text \<open>\<open>list(xs)\<close>: a new list object, at a fresh address, with the elements \<open>vs\<close>.\<close>

definition list_copy :: "heap \<Rightarrow> pyval list \<Rightarrow> nat \<times> heap" where
  "list_copy h vs = (fresh h, h\<lparr>cells := (cells h)(fresh h \<mapsto> vs), fresh := Suc (fresh h)\<rparr>)"

text \<open>
  \<open>xs[i] = v\<close> where \<open>xs\<close> holds the address \<open>r\<close>, for an index that is not negative:
  \<open>IndexError\<close> past the end of the list. An address without a list object does not
  support the assignment.
\<close>

definition list_setitem :: "heap \<Rightarrow> nat \<Rightarrow> nat \<Rightarrow> pyval \<Rightarrow> error + heap" where
  "list_setitem h r i v =
     (case cells h r of
        None \<Rightarrow> Inl TypeError
      | Some vs \<Rightarrow>
          if i < length vs then Inr (h\<lparr>cells := (cells h)(r \<mapsto> vs[i := v])\<rparr>)
          else Inl IndexError)"

text \<open>
  \<^verbatim>\<open>
  def f(xs):
      '''Modify value at first index.'''
      if len(xs) > 0:
          xs = list(xs)
          xs[0] = '@'
      return xs
  \<close>
  The result is the address the local variable \<open>xs\<close> holds at the end, and the store after
  the call.
\<close>

definition f :: "heap \<Rightarrow> nat \<Rightarrow> error + (nat \<times> heap)" where
  "f h xs =
     (case cells h xs of
        None \<Rightarrow> Inl TypeError
      | Some vs \<Rightarrow>
          if length vs > 0 then
            (let (xs', h') = list_copy h vs in
             case list_setitem h' xs' 0 (PStr ''@'') of
               Inl e \<Rightarrow> Inl e
             | Inr h'' \<Rightarrow> Inr (xs', h''))
          else Inr (xs, h))"

text \<open>The notebook's example: \<open>xs = [1,2,3]\<close> is the only object of the store.\<close>

definition heap0 :: heap where
  "heap0 = \<lparr>cells = [0 \<mapsto> [PInt 1, PInt 2, PInt 3]], fresh = 1\<rparr>"

subsection \<open>Fibonacci, plain and memoized\<close>

text \<open>
  \<^verbatim>\<open>
  def fib(n):
      print('Call fib(%d)' % n)
      if n == 0:
          return 0
      elif n == 1:
          return 1
      else:
          return fib(n-2) + fib(n-1)
  \<close>
  The printed lines are the effect of a call: the model threads the list of the printed
  arguments. The argument is a natural number (on a negative int the recursion never
  reaches a base case).
\<close>

fun fib :: "nat \<Rightarrow> nat list \<Rightarrow> int \<times> nat list" where
  "fib n out =
     (let out1 = out @ [n] in
      if n = 0 then (0, out1)
      else if n = 1 then (1, out1)
      else (let (a, out2) = fib (n - 2) out1;
                (b, out3) = fib (n - 1) out2
            in (a + b, out3)))"

declare fib.simps [simp del]

text \<open>
  \<^verbatim>\<open>
  @lru_cache(maxsize=None)
  def fib_cache(n):
      print('Call fib(%d)' % n)
      if n == 0:
          return 0
      elif n == 1:
          return 1
      else:
          return fib_cache(n-2) + fib_cache(n-1)
  \<close>
  The decorator keeps an unbounded table from arguments to results: a call whose argument
  is in the table returns the stored result without running the body, and any other call
  runs the body and stores its result. The state is the table and the printed lines.
\<close>

record memo =
  table :: "nat \<Rightarrow> int option"
  printed :: "nat list"

function fib_cache :: "nat \<Rightarrow> memo \<Rightarrow> int \<times> memo" where
  "fib_cache n s =
     (case table s n of
        Some v \<Rightarrow> (v, s)
      | None \<Rightarrow>
          (let s1 = s\<lparr>printed := printed s @ [n]\<rparr>;
               (v, s4) =
                 (if n = 0 then (0, s1)
                  else if n = 1 then (1, s1)
                  else (let (a, s2) = fib_cache (n - 2) s1;
                            (b, s3) = fib_cache (n - 1) s2
                        in (a + b, s3)))
           in (v, s4\<lparr>table := (table s4)(n \<mapsto> v)\<rparr>)))"
  by pat_completeness auto
termination
  by (relation "measure (\<lambda>(n, s). n)") auto

declare fib_cache.simps [simp del]

definition memo0 :: memo where
  "memo0 = \<lparr>table = Map.empty, printed = []\<rparr>"

text \<open>
  The Fibonacci numbers as the recurrence defines them, and the state of the cache after
  a sequence of earlier calls of \<open>fib_cache\<close> from an empty cache.
\<close>

fun fibv :: "nat \<Rightarrow> int" where
  "fibv 0 = 0"
| "fibv (Suc 0) = 1"
| "fibv (Suc (Suc n)) = fibv n + fibv (Suc n)"

definition after_calls :: "nat list \<Rightarrow> memo" where
  "after_calls ks = fold (\<lambda>k s. snd (fib_cache k s)) ks memo0"

definition table_ok :: "memo \<Rightarrow> bool" where
  "table_ok s = (\<forall>k v. table s k = Some v \<longrightarrow> v = fibv k)"

section \<open>Loops that may raise\<close>

text \<open>
  \<open>for i in is: body\<close> over a state, where the body may raise: the loop stops at the
  first exception.
\<close>

fun for_each :: "('i \<Rightarrow> 's \<Rightarrow> error + 's) \<Rightarrow> 'i list \<Rightarrow> 's \<Rightarrow> error + 's" where
  "for_each body [] s = Inr s"
| "for_each body (i # is) s =
     (case body i s of Inl e \<Rightarrow> Inl e | Inr s' \<Rightarrow> for_each body is s')"

section \<open>Gradient-descent notebook\<close>

subsection \<open>Exponentially weighted averages\<close>

text \<open>
  \<^verbatim>\<open>
  def ewa(y, beta):
      n = len(y)
      zs = np.zeros(n)
      z = 0
      for i in range(n):
          z = beta*z + (1 - beta)*y[i]
          zs[i] = z
      return zs
  \<close>
  The loop state is the pair of \<open>z\<close> and the array \<open>zs\<close>.
\<close>

definition ewa_step :: "real \<Rightarrow> real list \<Rightarrow> nat \<Rightarrow> real \<times> real list \<Rightarrow> real \<times> real list" where
  "ewa_step beta y i st =
     (let (z, zs) = st;
          z' = beta * z + (1 - beta) * y ! i
      in (z', zs[i := z']))"

definition ewa :: "real list \<Rightarrow> real \<Rightarrow> real list" where
  "ewa y beta =
     (let n = length y;
          zs = replicate n 0
      in snd (fold (ewa_step beta y) [0..<n] (0, zs)))"

text \<open>
  \<^verbatim>\<open>
  def ewabc(y, beta):
      n = len(y)
      zs = np.zeros(n)
      z = 0
      for i in range(n):
          z = beta*z + (1 - beta)*y[i]
          zc = z/(1 - beta**(i+1))
          zs[i] = zc
      return zs
  \<close>
  A division by zero has no real value (Python floats raise \<open>ZeroDivisionError\<close>, numpy
  scalars give an infinity or a NaN): the model stops with the error.
\<close>

definition ewabc_step :: "real \<Rightarrow> real list \<Rightarrow> nat \<Rightarrow> real \<times> real list \<Rightarrow> error + real \<times> real list" where
  "ewabc_step beta y i st =
     (let (z, zs) = st;
          z' = beta * z + (1 - beta) * y ! i
      in if 1 - beta ^ (i + 1) = 0 then Inl ZeroDivisionError
         else (let zc = z' / (1 - beta ^ (i + 1)) in Inr (z', zs[i := zc])))"

definition ewabc :: "real list \<Rightarrow> real \<Rightarrow> error + real list" where
  "ewabc y beta =
     (let n = length y;
          zs = replicate n 0
      in case for_each (ewabc_step beta y) [0..<n] (0, zs) of
           Inl e \<Rightarrow> Inl e
         | Inr st \<Rightarrow> Inr (snd st))"

text \<open>The value of \<open>z\<close> after \<open>k\<close> iterations of either loop.\<close>

fun ewa_z :: "real \<Rightarrow> real list \<Rightarrow> nat \<Rightarrow> real" where
  "ewa_z beta y 0 = 0"
| "ewa_z beta y (Suc k) = beta * ewa_z beta y k + (1 - beta) * y ! k"

text \<open>The numpy expression \<open>a*y + b*z\<close> on two arrays of one length.\<close>

definition axpby :: "real \<Rightarrow> real list \<Rightarrow> real \<Rightarrow> real list \<Rightarrow> real list" where
  "axpby a y b z = map2 (\<lambda>u w. a * u + b * w) y z"

subsection \<open>Momentum in one dimension\<close>

text \<open>
  \<^verbatim>\<open>
  def grad(x):
      return 2*x
  \<close>
\<close>

definition grad :: "real \<Rightarrow> real" where
  "grad x = 2 * x"

text \<open>
  \<^verbatim>\<open>
  def gd_momentum(x, grad, alpha, beta=0.9, max_iter=10):
      xs = np.zeros(1 + max_iter)
      xs[0] = x
      v = 0
      for i in range(max_iter):
          v = beta*v + (1-beta)*grad(x)
          vc = v/(1+beta**(i+1))
          x = x - alpha * vc
          xs[i+1] = x
      return xs
  \<close>
  The loop state is \<open>(x, v, xs)\<close>. The divisor of \<open>vc\<close> in iteration \<open>i\<close> is
  \<open>rescale beta i\<close>.
\<close>

definition rescale :: "real \<Rightarrow> nat \<Rightarrow> real" where
  "rescale beta i = 1 + beta ^ (i + 1)"

definition gd_momentum_step ::
  "(real \<Rightarrow> real) \<Rightarrow> real \<Rightarrow> real \<Rightarrow> nat \<Rightarrow> real \<times> real \<times> real list \<Rightarrow> error + real \<times> real \<times> real list" where
  "gd_momentum_step g alpha beta i st =
     (let (x, v, xs) = st;
          v' = beta * v + (1 - beta) * g x
      in if rescale beta i = 0 then Inl ZeroDivisionError
         else (let vc = v' / rescale beta i;
                   x' = x - alpha * vc
               in Inr (x', v', xs[i + 1 := x'])))"

definition gd_momentum :: "real \<Rightarrow> (real \<Rightarrow> real) \<Rightarrow> real \<Rightarrow> real \<Rightarrow> nat \<Rightarrow> error + real list" where
  "gd_momentum x g alpha beta max_iter =
     (let xs = replicate (1 + max_iter) 0;
          xs = xs[0 := x];
          v = 0
      in case for_each (gd_momentum_step g alpha beta) [0..<max_iter] (x, v, xs) of
           Inl e \<Rightarrow> Inl e
         | Inr st \<Rightarrow> Inr (snd (snd st)))"







section \<open>Parallel-programming notebook\<close>

subsection \<open>Monte Carlo estimate of pi\<close>

text \<open>
  \<^verbatim>\<open>
  def mc_pi(n):
      s = 0
      for i in range(n):
          x = np.random.uniform(-1, 1)
          y = np.random.uniform(-1, 1)
          if (x**2 + y**2) < 1:
              s += 1
      return 4*s/n
  \<close>
  The random generator is the stream \<open>draws\<close> of the values it returns, one per call, and
  the position \<open>k\<close> of the next one. The loop state is \<open>(s, k)\<close>.
\<close>

definition mc_pi_step :: "(nat \<Rightarrow> real) \<Rightarrow> nat \<Rightarrow> int \<times> nat \<Rightarrow> int \<times> nat" where
  "mc_pi_step draws i st =
     (let (s, k) = st;
          x = draws k;
          y = draws (k + 1)
      in (if x\<^sup>2 + y\<^sup>2 < 1 then s + 1 else s, k + 2))"

definition mc_pi_loop :: "(nat \<Rightarrow> real) \<Rightarrow> nat \<Rightarrow> int \<times> nat" where
  "mc_pi_loop draws m = fold (mc_pi_step draws) [0..<m] (0, 0)"

definition mc_pi :: "int \<Rightarrow> (nat \<Rightarrow> real) \<Rightarrow> error + real" where
  "mc_pi n draws =
     (let s = fst (mc_pi_loop draws (nat n))
      in if n = 0 then Inl ZeroDivisionError
         else Inr (4 * real_of_int s / real_of_int n))"

text \<open>A stream of draws for examples: every point is the centre of the box.\<close>

definition centre :: "nat \<Rightarrow> real" where
  "centre k = 0"

section \<open>Numba notebook\<close>

subsection \<open>Matrix multiplication in plain Python\<close>

text \<open>
  A two-dimensional numpy array is its shape and its rows. Reading or writing outside the
  shape raises \<open>IndexError\<close> (the loops below only produce indices that are not negative).
\<close>

record ndarray =
  shape :: "nat \<times> nat"
  rows :: "real list list"

definition wf_array :: "ndarray \<Rightarrow> bool" where
  "wf_array A =
     (length (rows A) = fst (shape A) \<and> list_all (\<lambda>r. length r = snd (shape A)) (rows A))"

definition zeros :: "nat \<times> nat \<Rightarrow> ndarray" where
  "zeros sh = \<lparr>shape = sh, rows = replicate (fst sh) (replicate (snd sh) 0)\<rparr>"

definition getitem :: "ndarray \<Rightarrow> nat \<Rightarrow> nat \<Rightarrow> error + real" where
  "getitem A i j =
     (if i < fst (shape A) \<and> j < snd (shape A) then Inr (rows A ! i ! j) else Inl IndexError)"

definition setitem :: "ndarray \<Rightarrow> nat \<Rightarrow> nat \<Rightarrow> real \<Rightarrow> error + ndarray" where
  "setitem A i j v =
     (if i < fst (shape A) \<and> j < snd (shape A)
      then Inr (A\<lparr>rows := (rows A)[i := (rows A ! i)[j := v]]\<rparr>)
      else Inl IndexError)"

text \<open>
  \<^verbatim>\<open>
  def matrix_multiply(A, B):
      m, n = A.shape
      n, p = B.shape
      C = np.zeros((m, p))
      for i in range(m):
          for j in range(p):
              for k in range(n):
                  C[i,j] += A[i,k] * B[k, j]
      return C
  \<close>
  The second unpacking overwrites \<open>n\<close>: the inner loop runs over the rows of \<open>B\<close>. The
  three loop bodies, innermost first; \<open>C[i,j] += e\<close> reads \<open>C[i,j]\<close>, evaluates \<open>e\<close> and
  writes the sum back.
\<close>

definition mm_body :: "ndarray \<Rightarrow> ndarray \<Rightarrow> nat \<Rightarrow> nat \<Rightarrow> nat \<Rightarrow> ndarray \<Rightarrow> error + ndarray" where
  "mm_body A B i j k C =
     (case getitem C i j of Inl e \<Rightarrow> Inl e | Inr c \<Rightarrow>
      case getitem A i k of Inl e \<Rightarrow> Inl e | Inr a \<Rightarrow>
      case getitem B k j of Inl e \<Rightarrow> Inl e | Inr b \<Rightarrow>
      setitem C i j (c + a * b))"

definition mm_cols :: "ndarray \<Rightarrow> ndarray \<Rightarrow> nat \<Rightarrow> nat \<Rightarrow> nat \<Rightarrow> ndarray \<Rightarrow> error + ndarray" where
  "mm_cols A B n i j C = for_each (mm_body A B i j) [0..<n] C"

definition mm_rows :: "ndarray \<Rightarrow> ndarray \<Rightarrow> nat \<Rightarrow> nat \<Rightarrow> nat \<Rightarrow> ndarray \<Rightarrow> error + ndarray" where
  "mm_rows A B n p i C = for_each (mm_cols A B n i) [0..<p] C"

definition matrix_multiply :: "ndarray \<Rightarrow> ndarray \<Rightarrow> error + ndarray" where
  "matrix_multiply A B =
     (let (m, n) = shape A;
          (n, p) = shape B;
          C = zeros (m, p)
      in for_each (mm_rows A B n p) [0..<m] C)"

text \<open>The entry of an array at a position inside its shape.\<close>

definition cell :: "ndarray \<Rightarrow> nat \<Rightarrow> nat \<Rightarrow> real" where
  "cell A i j = rows A ! i ! j"

text \<open>The entry of the mathematical product: the sum over the inner index.\<close>

definition dot :: "ndarray \<Rightarrow> ndarray \<Rightarrow> nat \<Rightarrow> nat \<Rightarrow> nat \<Rightarrow> real" where
  "dot A B n i j = (\<Sum>k = 0..<n. rows A ! i ! k * rows B ! k ! j)"

text \<open>Two small arrays for examples, of shapes 2 by 2 and 2 by 1.\<close>

definition A22 :: ndarray where
  "A22 = \<lparr>shape = (2, 2), rows = [[1, 2], [3, 4]]\<rparr>"

definition B21 :: ndarray where
  "B21 = \<lparr>shape = (2, 1), rows = [[5], [6]]\<rparr>"

section \<open>Properties of the functional-programming notebook\<close>

subsection \<open>\<open>foo\<close>\<close>

text \<open>
  Claim C5, as the code has it: calling \<open>foo\<close> with a string does not fail. The annotation
  \<open>a: int\<close> is not enforced, \<open>a * 3\<close> on a string is repetition, and the call returns the
  string three times over.
\<close>

theorem foo_str_repeats: "foo (PStr s) = Inr (PStr (s @ s @ s))"
  by (simp add: foo_def numeral_3_eq_3)

text \<open>The call of the notebook returns a value, where the claim as worded expects an error.\<close>

theorem foo_oops_returns: "foo (PStr ''oops'') = Inr (PStr ''oopsoopsoops'')"
  by (simp add: foo_def numeral_3_eq_3)

lemma foo_int: "foo (PInt a) = Inr (PInt (a * 3))"
  by (simp add: foo_def)

lemma foo_none: "foo PNone = Inl TypeError"
  by (simp add: foo_def)

subsection \<open>\<open>f\<close>\<close>

text \<open>
  Claim C10: \<open>f\<close> never mutates its argument. In a well-formed store where \<open>xs\<close> is the
  address of a list with elements \<open>vs\<close>, the call returns without an exception, every
  list object of the store (the argument among them) has the elements it had, and: for a
  non-empty argument the result is a new object of the same length with \<open>'@'\<close> at index 0
  and the argument's elements at every other index; for an empty argument the result is
  the argument itself and the store is unchanged.
\<close>

theorem f_no_mutation:
  assumes wf: "wf_heap h" and arg: "cells h xs = Some vs"
  shows "\<exists>r h'. f h xs = Inr (r, h')
           \<and> cells h' xs = Some vs
           \<and> (\<forall>a ws. cells h a = Some ws \<longrightarrow> cells h' a = Some ws)
           \<and> (if vs = [] then r = xs \<and> h' = h
               else r \<noteq> xs \<and> (\<exists>ws. cells h' r = Some ws \<and> length ws = length vs
                      \<and> ws ! 0 = PStr ''@''
                      \<and> (\<forall>i. 0 < i \<and> i < length vs \<longrightarrow> ws ! i = vs ! i)))"
proof (cases "vs = []")
  case True
  then show ?thesis using arg by (simp add: f_def)
next
  case False
  have lt: "xs < fresh h" using wf arg by (auto simp: wf_heap_def)
  have old: "cells h a = Some ws \<Longrightarrow> a \<noteq> fresh h" for a ws
    using wf by (auto simp: wf_heap_def)
  let ?h' = "h\<lparr>cells := (cells h)(fresh h \<mapsto> vs[0 := PStr ''@'']), fresh := Suc (fresh h)\<rparr>"
  have run: "f h xs = Inr (fresh h, ?h')"
    using arg False by (simp add: f_def list_copy_def list_setitem_def)
  show ?thesis
    unfolding run using False lt arg old by (auto simp: nth_list_update)
qed

text \<open>The notebook's call \<open>f(xs), xs\<close> with \<open>xs = [1,2,3]\<close>.\<close>

theorem f_no_mutation_witness:
  "wf_heap heap0 \<and> cells heap0 0 = Some [PInt 1, PInt 2, PInt 3]
   \<and> (\<exists>r h'. f heap0 0 = Inr (r, h')
           \<and> cells h' 0 = Some [PInt 1, PInt 2, PInt 3]
           \<and> cells h' r = Some [PStr ''@'', PInt 2, PInt 3])"
proof -
  have wf: "wf_heap heap0" by (simp add: wf_heap_def heap0_def)
  have arg: "cells heap0 0 = Some [PInt 1, PInt 2, PInt 3]" by (simp add: heap0_def)
  from f_no_mutation [OF wf arg] obtain r h' ws where
    run: "f heap0 0 = Inr (r, h')" and same: "cells h' 0 = Some [PInt 1, PInt 2, PInt 3]"
    and new: "cells h' r = Some ws" "length ws = 3" "ws ! 0 = PStr ''@''"
      "\<forall>i. 0 < i \<and> i < 3 \<longrightarrow> ws ! i = [PInt 1, PInt 2, PInt 3] ! i"
    by auto
  from new(4) have "ws ! Suc 0 = PInt 2" "ws ! Suc (Suc 0) = PInt 3"
    by (auto simp: numeral_3_eq_3)
  with new(2,3) have "ws = [PStr ''@'', PInt 2, PInt 3]"
    by (auto simp: list_eq_iff_nth_eq less_Suc_eq numeral_3_eq_3)
  with wf arg run same new(1) show ?thesis by blast
qed

subsection \<open>Fibonacci\<close>

lemma fib_val: "fst (fib n out) = fibv n"
proof (induction n arbitrary: out rule: fibv.induct)
  case 1
  show ?case by (simp add: fib.simps[of 0])
next
  case 2
  show ?case by (simp add: fib.simps[of "Suc 0"])
next
  case (3 n)
  show ?case using 3[of "out @ [Suc (Suc n)]"] 3(2)
    by (subst fib.simps) (simp add: Let_def split: prod.splits, metis fst_conv)
qed

text \<open>
  The invariant of the cache: every stored result is the Fibonacci number of its
  argument. A call returns that number and keeps the invariant.
\<close>

lemma fib_cache_val:
  "table_ok s \<Longrightarrow> fst (fib_cache n s) = fibv n \<and> table_ok (snd (fib_cache n s))"
proof (induction n arbitrary: s rule: fibv.induct)
  case 1
  then show ?case
    by (force simp: fib_cache.simps[of 0 s] table_ok_def split: option.splits)
next
  case 2
  then show ?case
    by (force simp: fib_cache.simps[of "Suc 0" s] table_ok_def split: option.splits)
next
  case (3 n)
  let ?s1 = "s\<lparr>printed := printed s @ [Suc (Suc n)]\<rparr>"
  have ok1: "table_ok ?s1" using 3(3) by (simp add: table_ok_def)
  obtain a s2 where A: "fib_cache n ?s1 = (a, s2)" by fastforce
  obtain b s3 where B: "fib_cache (Suc n) s2 = (b, s3)" by fastforce
  have a: "a = fibv n" "table_ok s2" using 3(1)[OF ok1] A by auto
  have b: "b = fibv (Suc n)" "table_ok s3" using 3(2)[OF a(2)] B by auto
  show ?case
  proof (cases "table s (Suc (Suc n))")
    case None
    then show ?thesis using A B a b
      by (auto simp: fib_cache.simps[of "Suc (Suc n)" s] table_ok_def)
  next
    case (Some v)
    then show ?thesis using 3(3)
      by (force simp: fib_cache.simps[of "Suc (Suc n)" s] table_ok_def)
  qed
qed

lemma table_ok_fold:
  "table_ok s \<Longrightarrow> table_ok (fold (\<lambda>k s. snd (fib_cache k s)) ks s)"
  by (induction ks arbitrary: s) (simp_all add: fib_cache_val)

lemma table_ok_after_calls: "table_ok (after_calls ks)"
  unfolding after_calls_def by (rule table_ok_fold) (simp add: table_ok_def memo0_def)

text \<open>
  Claim C7: for every natural number \<open>n\<close>, \<open>fib_cache(n)\<close> returns the value \<open>fib(n)\<close>
  returns, which is the Fibonacci number of the recurrence \<open>fib(0) = 0\<close>, \<open>fib(1) = 1\<close>,
  \<open>fib(n) = fib(n-2) + fib(n-1)\<close>. This holds in every state of the cache that earlier
  calls \<open>ks\<close> of \<open>fib_cache\<close> can leave, the empty cache among them, and whatever was
  printed before.
\<close>

theorem fib_cache_agrees:
  "fst (fib_cache n (after_calls ks)) = fst (fib n out) \<and> fst (fib n out) = fibv n"
  using fib_cache_val[OF table_ok_after_calls, of n ks] by (simp add: fib_val)

text \<open>
  What memoization changes is the calls: \<open>fib(6)\<close> runs the body 25 times, \<open>fib_cache(6)\<close>
  from an empty cache seven times, once for each argument.
\<close>

lemma fib_calls_example:
  "fst (fib 6 []) = 8 \<and> length (snd (fib 6 [])) = 25
   \<and> fst (fib_cache 6 memo0) = 8 \<and> printed (snd (fib_cache 6 memo0)) = [6, 4, 2, 0, 1, 3, 5]"
  by code_simp

section \<open>Properties of the gradient-descent notebook\<close>

lemma for_each_snoc:
  "for_each body (xs @ [x]) s =
     (case for_each body xs s of Inl e \<Rightarrow> Inl e | Inr s' \<Rightarrow> body x s')"
  by (induction xs arbitrary: s) (auto split: sum.splits)

subsection \<open>Exponentially weighted averages\<close>

text \<open>
  The invariant of the loop of \<open>ewa\<close>: after \<open>k\<close> iterations \<open>z\<close> is \<open>ewa_z beta y k\<close> and
  the first \<open>k\<close> entries of \<open>zs\<close> are the values \<open>z\<close> had after each iteration.
\<close>

lemma ewa_loop:
  "k \<le> length y \<Longrightarrow> length zs0 = length y \<Longrightarrow>
   \<exists>zs. fold (ewa_step beta y) [0..<k] (0, zs0) = (ewa_z beta y k, zs)
        \<and> length zs = length y \<and> (\<forall>i<k. zs ! i = ewa_z beta y (Suc i))"
proof (induction k)
  case 0
  then show ?case by simp
next
  case (Suc k)
  then obtain zs where st: "fold (ewa_step beta y) [0..<k] (0, zs0) = (ewa_z beta y k, zs)"
    and len: "length zs = length y" and vals: "\<forall>i<k. zs ! i = ewa_z beta y (Suc i)"
    by auto
  have "fold (ewa_step beta y) [0..<Suc k] (0, zs0)
        = (ewa_z beta y (Suc k), zs[k := ewa_z beta y (Suc k)])"
    by (simp add: st ewa_step_def Let_def)
  moreover have "\<forall>i<Suc k. zs[k := ewa_z beta y (Suc k)] ! i = ewa_z beta y (Suc i)"
    using vals len Suc.prems by (auto simp: nth_list_update less_Suc_eq)
  ultimately show ?case using len by simp
qed

lemma ewa_length: "length (ewa y beta) = length y"
  using ewa_loop[of "length y" y "replicate (length y) 0" beta] by (auto simp: ewa_def)

lemma ewa_nth: "i < length y \<Longrightarrow> ewa y beta ! i = ewa_z beta y (Suc i)"
  using ewa_loop[of "length y" y "replicate (length y) 0" beta] by (auto simp: ewa_def)

lemma pow_lt_one:
  fixes beta :: real
  assumes "0 < beta" and "beta < 1"
  shows "1 - beta ^ (i + 1) \<noteq> 0"
proof -
  from assms have "beta ^ Suc i < 1" by (rule power_Suc_less_one)
  then show ?thesis by simp
qed

lemma ewabc_loop:
  assumes nz: "\<forall>i<k. 1 - beta ^ (i + 1) \<noteq> 0"
  shows "k \<le> length y \<Longrightarrow> length zs0 = length y \<Longrightarrow>
   \<exists>zs. for_each (ewabc_step beta y) [0..<k] (0, zs0) = Inr (ewa_z beta y k, zs)
        \<and> length zs = length y
        \<and> (\<forall>i<k. zs ! i = ewa_z beta y (Suc i) / (1 - beta ^ (i + 1)))"
  using nz
proof (induction k)
  case 0
  then show ?case by simp
next
  case (Suc k)
  then obtain zs where
    st: "for_each (ewabc_step beta y) [0..<k] (0, zs0) = Inr (ewa_z beta y k, zs)"
    and len: "length zs = length y"
    and vals: "\<forall>i<k. zs ! i = ewa_z beta y (Suc i) / (1 - beta ^ (i + 1))"
    by auto
  have nzk: "1 - beta ^ (k + 1) \<noteq> 0" using Suc.prems by simp
  let ?zs = "zs[k := ewa_z beta y (Suc k) / (1 - beta ^ (k + 1))]"
  have "for_each (ewabc_step beta y) [0..<Suc k] (0, zs0) = Inr (ewa_z beta y (Suc k), ?zs)"
    using nzk by (simp add: for_each_snoc st ewabc_step_def Let_def)
  moreover have "\<forall>i<Suc k. ?zs ! i = ewa_z beta y (Suc i) / (1 - beta ^ (i + 1))"
    using vals len Suc.prems by (auto simp: nth_list_update less_Suc_eq)
  ultimately show ?case using len by simp
qed

text \<open>
  Claim C2: for every input sequence \<open>y\<close>, every \<open>beta\<close> with \<open>0 < beta < 1\<close> and every
  index \<open>t\<close> of \<open>y\<close> (counted from 0), \<open>ewabc(y, beta)\<close> returns an array of the length of \<open>y\<close>
  whose entry \<open>t\<close> is the entry \<open>t\<close> of \<open>ewa(y, beta)\<close> divided by \<open>1 - beta^(t+1)\<close>.
\<close>

theorem ewabc_is_rescaled_ewa:
  assumes "0 < beta" and "beta < 1"
  shows "\<exists>zs. ewabc y beta = Inr zs \<and> length zs = length y
           \<and> (\<forall>t<length y. zs ! t = ewa y beta ! t / (1 - beta ^ (t + 1)))"
proof -
  have nz: "\<forall>i<length y. 1 - beta ^ (i + 1) \<noteq> 0" using assms pow_lt_one by blast
  from ewabc_loop[OF nz, of y "replicate (length y) 0"]
  show ?thesis by (auto simp: ewabc_def ewa_nth)
qed

text \<open>On \<open>y = [1, 2, 4]\<close> with \<open>beta = 1/2\<close>, at index 1: \<open>(5/4) / (3/4) = 5/3\<close>.\<close>

theorem ewabc_is_rescaled_ewa_witness:
  "(0::real) < 1/2 \<and> (1/2::real) < 1
   \<and> (\<exists>zs. ewabc [1, 2, 4] (1/2) = Inr zs \<and> length zs = 3 \<and> zs ! 1 = 5/3)"
proof -
  have h: "(0::real) < 1/2" "(1/2::real) < 1" by simp_all
  have e: "ewa [1, 2, 4] (1/2) ! 1 = 5/4" by code_simp
  from ewabc_is_rescaled_ewa [OF h, of "[1, 2, 4]"] obtain zs where
    run: "ewabc [1, 2, 4] (1/2) = Inr zs" and len: "length zs = 3"
    and rows: "\<forall>t<3. zs ! t = ewa [1, 2, 4] (1/2) ! t / (1 - (1/2) ^ (t + 1))"
    by auto
  from rows have "zs ! 1 = ewa [1, 2, 4] (1/2) ! 1 / (1 - (1/2) ^ (1 + 1))" by simp
  then have "zs ! 1 = 5/3" unfolding e by (simp add: power2_eq_square)
  with h run len show ?thesis by blast
qed

lemma ewabc_beta_one: "ewabc [y0] 1 = Inl ZeroDivisionError"
  by (simp add: ewabc_def ewabc_step_def)

lemma ewa_z_closed:
  "ewa_z beta y (Suc k) = (1 - beta) * (\<Sum>j = 0..k. beta ^ (k - j) * y ! j)"
proof (induction k)
  case 0
  then show ?case by simp
next
  case (Suc k)
  have "(\<Sum>j = 0..Suc k. beta ^ (Suc k - j) * y ! j)
        = (\<Sum>j = 0..k. beta ^ (Suc k - j) * y ! j) + y ! Suc k" by simp
  also have "(\<Sum>j = 0..k. beta ^ (Suc k - j) * y ! j)
        = (\<Sum>j = 0..k. beta * (beta ^ (k - j) * y ! j))"
    by (rule sum.cong) (auto simp: Suc_diff_le)
  also have "\<dots> = beta * (\<Sum>j = 0..k. beta ^ (k - j) * y ! j)"
    by (simp add: sum_distrib_left)
  finally have S: "(\<Sum>j = 0..Suc k. beta ^ (Suc k - j) * y ! j)
        = beta * (\<Sum>j = 0..k. beta ^ (k - j) * y ! j) + y ! Suc k" .
  have "ewa_z beta y (Suc (Suc k)) = beta * ewa_z beta y (Suc k) + (1 - beta) * y ! Suc k"
    by simp
  also have "\<dots> = (1 - beta) * (beta * (\<Sum>j = 0..k. beta ^ (k - j) * y ! j) + y ! Suc k)"
    unfolding Suc.IH by (simp add: algebra_simps)
  finally show ?case unfolding S .
qed

lemma ewa_z_linear:
  "length y = length z \<Longrightarrow> k \<le> length y \<Longrightarrow>
   ewa_z beta (axpby a y b z) k = a * ewa_z beta y k + b * ewa_z beta z k"
  by (induction k) (auto simp: axpby_def algebra_simps)

text \<open>
  Claim C3: the exponentially weighted average is a linear filter. For every \<open>beta\<close>, all
  scalars \<open>a\<close> and \<open>b\<close> and all input sequences \<open>y\<close> and \<open>z\<close> of one length,
  \<open>ewa(a*y + b*z, beta) = a*ewa(y, beta) + b*ewa(z, beta)\<close> elementwise over exact
  arithmetic, and every output element has the closed form
  \<open>ewa(y, beta)[i] = (1 - beta) * (sum over k = 0..i of beta^(i-k) * y[k])\<close>.
\<close>

theorem ewa_linear_filter:
  assumes "length y = length z"
  shows "ewa (axpby a y b z) beta = axpby a (ewa y beta) b (ewa z beta)
       \<and> (\<forall>i<length y. ewa y beta ! i = (1 - beta) * (\<Sum>k = 0..i. beta ^ (i - k) * y ! k))"
proof
  have len: "length (axpby a y b z) = length y" using assms by (simp add: axpby_def)
  show "ewa (axpby a y b z) beta = axpby a (ewa y beta) b (ewa z beta)"
  proof (rule nth_equalityI)
    show "length (ewa (axpby a y b z) beta) = length (axpby a (ewa y beta) b (ewa z beta))"
      using assms by (simp add: ewa_length len) (simp add: axpby_def ewa_length)
  next
    fix i assume "i < length (ewa (axpby a y b z) beta)"
    then have i: "i < length y" by (simp add: ewa_length len)
    then show "ewa (axpby a y b z) beta ! i = axpby a (ewa y beta) b (ewa z beta) ! i"
      using assms ewa_z_linear[of y z "Suc i" beta a b]
      by (simp add: ewa_nth len) (simp add: axpby_def ewa_length ewa_nth)
  qed
  show "\<forall>i<length y. ewa y beta ! i = (1 - beta) * (\<Sum>k = 0..i. beta ^ (i - k) * y ! k)"
    using ewa_z_closed[of beta y] by (simp add: ewa_nth)
qed

text \<open>
  On \<open>y = [1, 2, 4]\<close>, \<open>z = [0, 1, 0]\<close>, \<open>a = 2\<close>, \<open>b = 3\<close> and \<open>beta = 1/2\<close>: both sides of
  the linearity are \<open>[1, 4, 6]\<close>, and the closed form at index 2 is
  \<open>(1/2) * (1/4 + 1 + 4) = 21/8\<close>.
\<close>

theorem ewa_linear_filter_witness:
  "length [1, 2, 4 :: real] = length [0, 1, 0 :: real]
   \<and> ewa (axpby 2 [1, 2, 4] 3 [0, 1, 0]) (1/2) = [1, 4, 6]
   \<and> axpby 2 (ewa [1, 2, 4] (1/2)) 3 (ewa [0, 1, 0] (1/2)) = [1, 4, 6]
   \<and> ewa [1, 2, 4] (1/2) ! 2 = 21/8"
proof -
  have h: "length [1, 2, 4 :: real] = length [0, 1, 0 :: real]" by simp
  have r: "axpby 2 (ewa [1, 2, 4] (1/2)) 3 (ewa [0, 1, 0] (1/2)) = [1, 4, 6]" by code_simp
  from ewa_linear_filter [OF h, of 2 3 "1/2"]
  have lin: "ewa (axpby 2 [1, 2, 4] 3 [0, 1, 0]) (1/2)
             = axpby 2 (ewa [1, 2, 4] (1/2)) 3 (ewa [0, 1, 0] (1/2))"
    and closed: "\<forall>i<3. ewa [1, 2, 4] (1/2) ! i
             = (1 - 1/2) * (\<Sum>k = 0..i. (1/2) ^ (i - k) * [1, 2, 4] ! k)"
    by simp_all
  from closed have "ewa [1, 2, 4] (1/2) ! 2
             = (1 - 1/2) * (\<Sum>k = 0..2. (1/2) ^ (2 - k) * [1, 2, 4 :: real] ! k)"
    by simp
  also have "\<dots> = 21/8"
    by (simp add: numeral_2_eq_2 power2_eq_square)
  finally show ?thesis using h r lin by simp
qed

subsection \<open>Momentum: what one iteration does\<close>


lemma gd_momentum_div_zero: "gd_momentum x g alpha (-1) (Suc n) = Inl ZeroDivisionError"
  by (simp add: gd_momentum_def upt_rec[of 0] gd_momentum_step_def rescale_def Let_def)






subsection \<open>Momentum on the quadratic bowl\<close>
















text \<open>The first rows of the run.\<close>

lemma bowl_first_rows:
  "gd_momentum 1 grad (19/20) (9/10) 2 = Inr [1, 9/10, 1287/1810]"
  by code_simp

section \<open>Properties of the parallel-programming notebook\<close>

subsection \<open>\<open>mc_pi\<close>\<close>

lemma mc_pi_loop_Suc: "mc_pi_loop draws (Suc m) = mc_pi_step draws m (mc_pi_loop draws m)"
  by (simp add: mc_pi_loop_def)

text \<open>The invariant of the loop: after \<open>m\<close> iterations the hit counter is between 0 and \<open>m\<close>.\<close>

lemma mc_pi_loop_bounds:
  "0 \<le> fst (mc_pi_loop draws m) \<and> fst (mc_pi_loop draws m) \<le> int m"
proof (induction m)
  case 0
  show ?case by (simp add: mc_pi_loop_def)
next
  case (Suc m)
  obtain s k where st: "mc_pi_loop draws m = (s, k)" by fastforce
  with Suc show ?case
    by (simp add: mc_pi_loop_Suc mc_pi_step_def Let_def)
qed

text \<open>
  Claim C9: for every \<open>n \<ge> 1\<close> and every sequence of sampled points, \<open>mc_pi(n)\<close> returns a
  value in the closed interval from 0 to 4. The division by \<open>n\<close> is defined, and after
  each number \<open>m \<le> n\<close> of iterations the hit counter \<open>s\<close> satisfies \<open>0 \<le> s \<le> m\<close>, so
  \<open>0 \<le> s \<le> n\<close> throughout the loop.
\<close>

theorem mc_pi_in_range:
  assumes "1 \<le> n"
  shows "\<exists>r. mc_pi n draws = Inr r \<and> 0 \<le> r \<and> r \<le> 4
           \<and> (\<forall>m\<le>nat n. 0 \<le> fst (mc_pi_loop draws m) \<and> fst (mc_pi_loop draws m) \<le> int m)"
proof -
  let ?s = "fst (mc_pi_loop draws (nat n))"
  have s: "0 \<le> ?s" "?s \<le> n" using mc_pi_loop_bounds[of draws "nat n"] assms by auto
  have run: "mc_pi n draws = Inr (4 * real_of_int ?s / real_of_int n)"
    using assms by (simp add: mc_pi_def Let_def)
  have pos: "0 < real_of_int n" using assms by simp
  have "0 \<le> 4 * real_of_int ?s / real_of_int n" using s(1) pos by simp
  moreover have "4 * real_of_int ?s / real_of_int n \<le> 4"
  proof -
    have "real_of_int ?s \<le> real_of_int n" using s(2) by simp
    then have "4 * real_of_int ?s \<le> 4 * real_of_int n" by simp
    then show ?thesis using pos by (simp add: pos_divide_le_eq)
  qed
  ultimately show ?thesis using run mc_pi_loop_bounds by blast
qed

text \<open>Three points at the centre of the box are three hits: the estimate is 4.\<close>

theorem mc_pi_in_range_witness:
  "(1::int) \<le> 3 \<and> (\<exists>r. mc_pi 3 centre = Inr r \<and> 0 \<le> r \<and> r \<le> 4) \<and> mc_pi 3 centre = Inr 4"
proof -
  have h: "(1::int) \<le> 3" by simp
  have v: "mc_pi 3 centre = Inr 4" by code_simp
  from mc_pi_in_range [OF h, of centre]
  have "\<exists>r. mc_pi 3 centre = Inr r \<and> 0 \<le> r \<and> r \<le> 4" by blast
  with h v show ?thesis by blast
qed

lemma mc_pi_zero: "mc_pi 0 draws = Inl ZeroDivisionError"
  by (simp add: mc_pi_def)

section \<open>Properties of the Numba notebook\<close>

subsection \<open>\<open>matrix_multiply\<close>\<close>

lemma getitem_ok:
  "i < fst (shape A) \<Longrightarrow> j < snd (shape A) \<Longrightarrow> getitem A i j = Inr (cell A i j)"
  by (simp add: getitem_def cell_def)

text \<open>A write inside the shape keeps the array well formed and changes one entry.\<close>

lemma setitem_ok:
  assumes "wf_array C" and "i < fst (shape C)" and "j < snd (shape C)"
  shows "\<exists>C'. setitem C i j v = Inr C' \<and> wf_array C' \<and> shape C' = shape C
          \<and> (\<forall>i' j'. i' < fst (shape C) \<longrightarrow> j' < snd (shape C) \<longrightarrow>
                cell C' i' j' = (if i' = i \<and> j' = j then v else cell C i' j'))"
proof -
  let ?C = "C\<lparr>rows := (rows C)[i := (rows C ! i)[j := v]]\<rparr>"
  have run: "setitem C i j v = Inr ?C" using assms by (simp add: setitem_def)
  have len: "length (rows C) = fst (shape C)" and
    row: "\<And>r. r \<in> set (rows C) \<Longrightarrow> length r = snd (shape C)"
    using assms(1) by (auto simp: wf_array_def list_all_iff)
  have "wf_array ?C"
    using len row assms(2)
    by (auto simp: wf_array_def list_all_iff dest!: set_update_subset_insert[THEN subsetD])
  moreover have "cell ?C i' j' = (if i' = i \<and> j' = j then v else cell C i' j')"
    if "i' < fst (shape C)" "j' < snd (shape C)" for i' j'
    using that len row[of "rows C ! i"] assms(2,3) by (auto simp: cell_def nth_list_update)
  ultimately show ?thesis using run by auto
qed

lemma dot_Suc: "dot A B (Suc k) i j = dot A B k i j + cell A i k * cell B k j"
  by (simp add: dot_def cell_def)

lemma dot_0: "dot A B 0 i j = 0"
  by (simp add: dot_def)

text \<open>
  The loop over \<open>k\<close>: after \<open>kk\<close> iterations the entry \<open>(i, j)\<close> has grown by the first
  \<open>kk\<close> terms of the sum, and no other entry has changed.
\<close>

lemma mm_body_loop:
  assumes shA: "shape A = (m, n)" and shB: "shape B = (n, p)"
    and wfC: "wf_array C" and shC: "shape C = (m, p)" and i: "i < m" and j: "j < p"
  shows "kk \<le> n \<Longrightarrow>
    \<exists>C'. for_each (mm_body A B i j) [0..<kk] C = Inr C' \<and> wf_array C' \<and> shape C' = (m, p)
       \<and> (\<forall>i' j'. i' < m \<longrightarrow> j' < p \<longrightarrow>
            cell C' i' j'
            = (if i' = i \<and> j' = j then cell C i j + dot A B kk i j else cell C i' j'))"
proof (induction kk)
  case 0
  then show ?case using wfC shC by (simp add: dot_0)
next
  case (Suc kk)
  then obtain C1 where run: "for_each (mm_body A B i j) [0..<kk] C = Inr C1"
    and wf1: "wf_array C1" and sh1: "shape C1 = (m, p)"
    and c1: "\<And>i' j'. i' < m \<Longrightarrow> j' < p \<Longrightarrow>
            cell C1 i' j'
            = (if i' = i \<and> j' = j then cell C i j + dot A B kk i j else cell C i' j')"
    by auto
  have kk: "kk < n" using Suc.prems by simp
  let ?v = "cell C1 i j + cell A i kk * cell B kk j"
  from setitem_ok[OF wf1, of i j ?v] obtain C2 where
    set: "setitem C1 i j ?v = Inr C2" and wf2: "wf_array C2" and sh2: "shape C2 = (m, p)"
    and c2: "\<And>i' j'. i' < m \<Longrightarrow> j' < p \<Longrightarrow>
            cell C2 i' j' = (if i' = i \<and> j' = j then ?v else cell C1 i' j')"
    using sh1 i j by auto
  have body: "mm_body A B i j kk C1 = Inr C2"
    using i j kk by (simp add: mm_body_def getitem_ok sh1 shA shB set)
  have "for_each (mm_body A B i j) [0..<Suc kk] C = Inr C2"
    by (simp add: for_each_snoc run body)
  moreover have "cell C2 i' j'
      = (if i' = i \<and> j' = j then cell C i j + dot A B (Suc kk) i j else cell C i' j')"
    if "i' < m" "j' < p" for i' j'
    using that c2[of i' j'] c1[of i' j'] c1[of i j] i j by (simp add: dot_Suc)
  ultimately show ?case using wf2 sh2 by blast
qed

text \<open>The loop over \<open>j\<close>: the entries of row \<open>i\<close> in the first \<open>jj\<close> columns have grown.\<close>

lemma mm_cols_loop:
  assumes shA: "shape A = (m, n)" and shB: "shape B = (n, p)"
    and wfC: "wf_array C" and shC: "shape C = (m, p)" and i: "i < m"
  shows "jj \<le> p \<Longrightarrow>
    \<exists>C'. for_each (mm_cols A B n i) [0..<jj] C = Inr C' \<and> wf_array C' \<and> shape C' = (m, p)
       \<and> (\<forall>i' j'. i' < m \<longrightarrow> j' < p \<longrightarrow>
            cell C' i' j'
            = (if i' = i \<and> j' < jj then cell C i' j' + dot A B n i' j' else cell C i' j'))"
proof (induction jj)
  case 0
  then show ?case using wfC shC by simp
next
  case (Suc jj)
  then obtain C1 where run: "for_each (mm_cols A B n i) [0..<jj] C = Inr C1"
    and wf1: "wf_array C1" and sh1: "shape C1 = (m, p)"
    and c1: "\<And>i' j'. i' < m \<Longrightarrow> j' < p \<Longrightarrow>
            cell C1 i' j'
            = (if i' = i \<and> j' < jj then cell C i' j' + dot A B n i' j' else cell C i' j')"
    by auto
  have jj: "jj < p" using Suc.prems by simp
  from mm_body_loop[OF shA shB wf1 sh1 i jj, of n] obtain C2 where
    body: "mm_cols A B n i jj C1 = Inr C2" and wf2: "wf_array C2" and sh2: "shape C2 = (m, p)"
    and c2: "\<And>i' j'. i' < m \<Longrightarrow> j' < p \<Longrightarrow>
            cell C2 i' j'
            = (if i' = i \<and> j' = jj then cell C1 i jj + dot A B n i jj else cell C1 i' j')"
    by (auto simp: mm_cols_def)
  have "for_each (mm_cols A B n i) [0..<Suc jj] C = Inr C2"
    by (simp add: for_each_snoc run body)
  moreover have "cell C2 i' j'
      = (if i' = i \<and> j' < Suc jj then cell C i' j' + dot A B n i' j' else cell C i' j')"
    if "i' < m" "j' < p" for i' j'
    using that c2[of i' j'] c1[of i' j'] c1[of i jj] i jj by (auto simp: less_Suc_eq)
  ultimately show ?case using wf2 sh2 by blast
qed

text \<open>The loop over \<open>i\<close>: the entries of the first \<open>ii\<close> rows have grown.\<close>

lemma mm_rows_loop:
  assumes shA: "shape A = (m, n)" and shB: "shape B = (n, p)"
    and wfC: "wf_array C" and shC: "shape C = (m, p)"
  shows "ii \<le> m \<Longrightarrow>
    \<exists>C'. for_each (mm_rows A B n p) [0..<ii] C = Inr C' \<and> wf_array C' \<and> shape C' = (m, p)
       \<and> (\<forall>i' j'. i' < m \<longrightarrow> j' < p \<longrightarrow>
            cell C' i' j'
            = (if i' < ii then cell C i' j' + dot A B n i' j' else cell C i' j'))"
proof (induction ii)
  case 0
  then show ?case using wfC shC by simp
next
  case (Suc ii)
  then obtain C1 where run: "for_each (mm_rows A B n p) [0..<ii] C = Inr C1"
    and wf1: "wf_array C1" and sh1: "shape C1 = (m, p)"
    and c1: "\<And>i' j'. i' < m \<Longrightarrow> j' < p \<Longrightarrow>
            cell C1 i' j'
            = (if i' < ii then cell C i' j' + dot A B n i' j' else cell C i' j')"
    by auto
  have ii: "ii < m" using Suc.prems by simp
  from mm_cols_loop[OF shA shB wf1 sh1 ii, of p] obtain C2 where
    body: "mm_rows A B n p ii C1 = Inr C2" and wf2: "wf_array C2" and sh2: "shape C2 = (m, p)"
    and c2: "\<And>i' j'. i' < m \<Longrightarrow> j' < p \<Longrightarrow>
            cell C2 i' j'
            = (if i' = ii \<and> j' < p then cell C1 i' j' + dot A B n i' j' else cell C1 i' j')"
    by (auto simp: mm_rows_def)
  have "for_each (mm_rows A B n p) [0..<Suc ii] C = Inr C2"
    by (simp add: for_each_snoc run body)
  moreover have "cell C2 i' j'
      = (if i' < Suc ii then cell C i' j' + dot A B n i' j' else cell C i' j')"
    if "i' < m" "j' < p" for i' j'
    using that c2[of i' j'] c1[of i' j'] ii by (auto simp: less_Suc_eq)
  ultimately show ?case using wf2 sh2 by blast
qed

lemma zeros_ok:
  "wf_array (zeros (m, p))" "shape (zeros (m, p)) = (m, p)"
  "i < m \<Longrightarrow> j < p \<Longrightarrow> cell (zeros (m, p)) i j = 0"
  by (auto simp: zeros_def wf_array_def list_all_iff cell_def)

text \<open>
  Claim C6: \<open>matrix_multiply\<close> computes the matrix product. For every array \<open>A\<close> of shape
  \<open>m\<close> by \<open>n\<close> and every array \<open>B\<close> of shape \<open>n\<close> by \<open>p\<close> the call returns, without an
  exception, an array \<open>C\<close> of shape \<open>m\<close> by \<open>p\<close> with
  \<open>C[i,j] = sum over k = 0..n-1 of A[i,k] * B[k,j]\<close> for all \<open>i < m\<close> and \<open>j < p\<close>, over
  exact arithmetic.
\<close>

theorem matrix_multiply_product:
  assumes "wf_array A" and "wf_array B" and "shape A = (m, n)" and "shape B = (n, p)"
  shows "\<exists>C. matrix_multiply A B = Inr C \<and> wf_array C \<and> shape C = (m, p)
          \<and> (\<forall>i<m. \<forall>j<p. rows C ! i ! j = (\<Sum>k = 0..<n. rows A ! i ! k * rows B ! k ! j))"
proof -
  from mm_rows_loop[OF assms(3,4) zeros_ok(1,2), of m] obtain C where
    run: "for_each (mm_rows A B n p) [0..<m] (zeros (m, p)) = Inr C"
    and wf: "wf_array C" and sh: "shape C = (m, p)"
    and c: "\<And>i j. i < m \<Longrightarrow> j < p \<Longrightarrow> cell C i j = cell (zeros (m, p)) i j + dot A B n i j"
    by auto
  have "matrix_multiply A B = Inr C" using assms(3,4) run by (simp add: matrix_multiply_def)
  moreover have "\<forall>i<m. \<forall>j<p. rows C ! i ! j = (\<Sum>k = 0..<n. rows A ! i ! k * rows B ! k ! j)"
    using c zeros_ok(3) by (simp add: cell_def dot_def)
  ultimately show ?thesis using wf sh by blast
qed

text \<open>
  The product of \<open>[[1, 2], [3, 4]]\<close> and \<open>[[5], [6]]\<close>: the entry in row 1 is
  \<open>3 * 5 + 4 * 6 = 39\<close>.
\<close>

theorem matrix_multiply_product_witness:
  "wf_array A22 \<and> wf_array B21 \<and> shape A22 = (2, 2) \<and> shape B21 = (2, 1)
   \<and> (\<exists>C. matrix_multiply A22 B21 = Inr C \<and> shape C = (2, 1) \<and> rows C ! 1 ! 0 = 39)"
proof -
  have h: "wf_array A22" "wf_array B21" "shape A22 = (2, 2)" "shape B21 = (2, 1)"
    by (simp_all add: wf_array_def A22_def B21_def)
  from matrix_multiply_product [OF h] obtain C where
    run: "matrix_multiply A22 B21 = Inr C" and sh: "shape C = (2, 1)"
    and entries: "\<forall>i<2. \<forall>j<1. rows C ! i ! j = (\<Sum>k = 0..<2. rows A22 ! i ! k * rows B21 ! k ! j)"
    by blast
  from entries have "rows C ! 1 ! 0 = (\<Sum>k = 0..<2. rows A22 ! 1 ! k * rows B21 ! k ! 0)"
    by simp
  also have "\<dots> = 39" by (simp add: A22_def B21_def numeral_2_eq_2)
  finally show ?thesis using h run sh by blast
qed

text \<open>
  The inner loop runs over the rows of the second argument: when the second array has
  more rows than the first has columns, the read of the first array leaves its shape.
\<close>

lemma matrix_multiply_mismatch: "matrix_multiply B21 A22 = Inl IndexError"
  by code_simp

end
